theory Spec2Isabelle
  imports Main "HOL-Library.Sublist"
begin

section \<open>Strings and paths\<close>

text \<open>
  The program is \<^verbatim>\<open>renamer.py\<close>. Paths and file names are strings. The functions of
  \<^verbatim>\<open>os.path\<close> are modelled after \<^verbatim>\<open>posixpath\<close> (separator \<^verbatim>\<open>/\<close>, no alternative
  separator, extension separator \<^verbatim>\<open>.\<close>); \<^verbatim>\<open>str.lower\<close> and \<^verbatim>\<open>str.strip\<close> are
  modelled on ASCII characters.
\<close>

type_synonym path = string
type_synonym bytes = string

definition sep :: char where
  "sep = CHR ''/''"

definition extsep :: char where
  "extsep = CHR ''.''"

text \<open>\<^verbatim>\<open>p.rfind(c)\<close> for a one-character \<^verbatim>\<open>c\<close>: the last index of \<^verbatim>\<open>c\<close>, or -1.\<close>

definition rfind :: "string \<Rightarrow> char \<Rightarrow> int" where
  "rfind p c =
     (if c \<in> set p then int (length p) - 1 - int (length (takeWhile (\<lambda>x. x \<noteq> c) (rev p)))
      else - 1)"

text \<open>
  \<^verbatim>\<open>genericpath._splitext(p, sep, None, extsep)\<close>: the extension starts at the last dot
  after the last separator, unless only dots lie between the separator and that dot.
\<close>

definition splitext :: "string \<Rightarrow> string \<times> string" where
  "splitext p =
     (let sepIndex = rfind p sep;
          dotIndex = rfind p extsep
      in if dotIndex > sepIndex \<and>
            list_ex (\<lambda>c. c \<noteq> extsep)
              (take (nat (dotIndex - (sepIndex + 1))) (drop (nat (sepIndex + 1)) p))
         then (take (nat dotIndex) p, drop (nat dotIndex) p)
         else (p, []))"

text \<open>\<^verbatim>\<open>posixpath.basename(p)\<close>: what follows the last separator.\<close>

definition basename :: "path \<Rightarrow> string" where
  "basename p = drop (nat (rfind p sep + 1)) p"

text \<open>\<^verbatim>\<open>posixpath.join(a, b)\<close>.\<close>

definition join :: "path \<Rightarrow> string \<Rightarrow> path" where
  "join a b =
     (if (b \<noteq> [] \<and> hd b = sep) \<or> a = [] then b
      else if last a = sep then a @ b
      else a @ [sep] @ b)"

definition lower_char :: "char \<Rightarrow> char" where
  "lower_char c =
     (let n = (of_char c :: nat) in if 65 \<le> n \<and> n \<le> 90 then char_of (n + 32) else c)"

definition lower :: "string \<Rightarrow> string" where
  "lower s = map lower_char s"

definition is_space :: "char \<Rightarrow> bool" where
  "is_space c = (let n = (of_char c :: nat) in (9 \<le> n \<and> n \<le> 13) \<or> (28 \<le> n \<and> n \<le> 32))"

definition strip :: "string \<Rightarrow> string" where
  "strip s = rev (dropWhile is_space (rev (dropWhile is_space s)))"

text \<open>\<^verbatim>\<open>s.split(',')\<close>: the fields between commas; the empty string has one empty field.\<close>

fun split_comma :: "string \<Rightarrow> string list" where
  "split_comma [] = [[]]"
| "split_comma (c # cs) =
     (if c = CHR '','' then [] # split_comma cs
      else (case split_comma cs of
              f # fs \<Rightarrow> (c # f) # fs
            | [] \<Rightarrow> [[c]]))"

text \<open>\<^verbatim>\<open>str(n)\<close> for a non-negative integer: its decimal digits.\<close>

definition digit :: "nat \<Rightarrow> char" where
  "digit d = char_of (48 + d)"

fun str :: "nat \<Rightarrow> string" where
  "str n = (if n < 10 then [digit n] else str (n div 10) @ [digit (n mod 10)])"

declare str.simps [simp del]

section \<open>The file system\<close>

text \<open>
  A directory lists its entries by name, in listing order. An entry is a regular file, a
  directory that can be listed, a directory that cannot (listing it raises), a link to a
  directory, or something else that is no directory (a broken link, a FIFO, a socket).
  The world records which object each path string resolves to (resolving a path, links
  included, is the operating system's work), and which paths refuse input or output: a
  missing or read-only parent directory, a full disk.
\<close>

datatype node =
    File bytes
  | Dir "(string \<times> node) list"
  | Closed_dir "(string \<times> node) list"
  | Link_dir
  | Special

datatype fault = Refuse | Truncate nat

datatype error =
    FileNotFound | IsADirectory | FileExists | PermissionDenied | NoSpace | SameFile
  | SpecialFile | PrintFailed

record world =
  objs :: "path \<Rightarrow> node option"
  faults :: "path \<Rightarrow> fault option"

definition exists :: "world \<Rightarrow> path \<Rightarrow> bool" where
  "exists w p = (objs w p \<noteq> None)"

text \<open>
  \<^verbatim>\<open>os.walk(top)\<close>, top down, with its defaults (links are not followed, errors of
  listing are ignored): one triple per directory listed (its path, the names of its
  entries that are directories, the names of all its other entries), a directory before
  its subdirectories, each subdirectory under the path \<^verbatim>\<open>join(top, name)\<close>. A link to a
  directory and a directory that cannot be listed are named among the directories and
  yield no triple of their own.
\<close>

fun is_dir :: "node \<Rightarrow> bool" where
  "is_dir (Dir _) = True"
| "is_dir (Closed_dir _) = True"
| "is_dir Link_dir = True"
| "is_dir (File _) = False"
| "is_dir Special = False"

definition dirnames :: "(string \<times> node) list \<Rightarrow> string list" where
  "dirnames es = map fst (filter (\<lambda>e. is_dir (snd e)) es)"

definition filenames :: "(string \<times> node) list \<Rightarrow> string list" where
  "filenames es = map fst (filter (\<lambda>e. \<not> is_dir (snd e)) es)"

fun walk :: "path \<Rightarrow> (string \<times> node) list \<Rightarrow> (path \<times> string list \<times> string list) list" where
  "walk dirpath es =
     (dirpath, dirnames es, filenames es)
     # concat (map (\<lambda>e. case snd e of Dir es' \<Rightarrow> walk (join dirpath (fst e)) es' | _ \<Rightarrow> []) es)"

declare walk.simps [simp del]

text \<open>A walk from a path that cannot be listed yields nothing (the error is ignored).\<close>

definition os_walk :: "world \<Rightarrow> path \<Rightarrow> (path \<times> string list \<times> string list) list" where
  "os_walk w topdir = (case objs w topdir of Some (Dir es) \<Rightarrow> walk topdir es | _ \<Rightarrow> [])"


text \<open>
  Writing the bytes \<open>b\<close> to the path \<open>dst\<close>, for \<^verbatim>\<open>shutil.copy2\<close>: an existing regular file
  is overwritten; a directory or a special file there raises; so does a path that refuses
  output, and a write cut short leaves the part written behind.
\<close>

definition write_file :: "world \<Rightarrow> path \<Rightarrow> bytes \<Rightarrow> (error + path) \<times> world" where
  "write_file w dst b =
     (case objs w dst of
        Some (Dir _) \<Rightarrow> (Inl IsADirectory, w)
      | Some (Closed_dir _) \<Rightarrow> (Inl IsADirectory, w)
      | Some Link_dir \<Rightarrow> (Inl IsADirectory, w)
      | Some Special \<Rightarrow> (Inl SpecialFile, w)
      | _ \<Rightarrow>
          (case faults w dst of
             Some Refuse \<Rightarrow> (Inl PermissionDenied, w)
           | Some (Truncate n) \<Rightarrow> (Inl NoSpace, w\<lparr>objs := (objs w)(dst \<mapsto> File (take n b))\<rparr>)
           | None \<Rightarrow> (Inr dst, w\<lparr>objs := (objs w)(dst \<mapsto> File b)\<rparr>)))"

text \<open>
  \<^verbatim>\<open>shutil.copy2(src, dst)\<close>: a destination that is a directory stands for the file of
  the source's base name in it. The copy raises when source and destination are one
  file, when the source is missing, is a directory or a special file, or cannot be read,
  and when the destination cannot be written. The result is the error raised or the path
  written, and the world afterwards.
\<close>

definition copy2 :: "world \<Rightarrow> path \<Rightarrow> path \<Rightarrow> (error + path) \<times> world" where
  "copy2 w src dst =
     (let dst' = (case objs w dst of
                    Some t \<Rightarrow> if is_dir t then join dst (basename src) else dst
                  | None \<Rightarrow> dst)
      in if exists w src \<and> src = dst' then (Inl SameFile, w)
         else
           (case objs w src of
              None \<Rightarrow> (Inl FileNotFound, w)
            | Some (File b) \<Rightarrow>
                if faults w src = Some Refuse then (Inl PermissionDenied, w)
                else write_file w dst' b
            | Some Special \<Rightarrow> (Inl SpecialFile, w)
            | Some _ \<Rightarrow> (Inl IsADirectory, w)))"

section \<open>The program\<close>

text \<open>
  What the program prints, one event per \<^verbatim>\<open>print\<close> call that carries data. In this
  section every \<^verbatim>\<open>print\<close> is taken to succeed, and \<^verbatim>\<open>main\<close> starts from the parsed
  arguments; the next section has the program with a \<^verbatim>\<open>print\<close> that can raise and with
  the outcome of \<^verbatim>\<open>parse_args\<close>, and the two agree when the standard output takes every
  line.
\<close>

datatype event =
    Dest_ready path
  | Dest_failed path error
  | Source_missing path
  | Searching path "string list"
  | Found nat
  | Nothing_to_copy
  | Copied string string
  | Copy_failed path error
  | Summary nat nat
  | Settings path path "string list"
  | Finished

text \<open>\<^verbatim>\<open>find_files_by_format\<close>: the list returned, and what is printed.\<close>

definition find_files_by_format :: "world \<Rightarrow> path \<Rightarrow> string list \<Rightarrow> path list \<times> event list" where
  "find_files_by_format w source_dir file_formats =
     (if \<not> exists w source_dir then ([], [Source_missing source_dir])
      else
        let found_files =
              concat (map (\<lambda>(root, dirs, files).
                        map (\<lambda>file. join root file)
                          (filter (\<lambda>file. lower (snd (splitext file)) \<in> set file_formats) files))
                      (os_walk w source_dir))
        in (found_files,
            [Searching source_dir file_formats, Found (length found_files)]))"


text \<open>
  The \<^verbatim>\<open>while\<close> loop of \<^verbatim>\<open>copy_and_rename_files\<close> (lines 92 to 97), entered with the
  first candidate and the counter. It may run forever: \<open>None\<close> is that it does not
  return. The counter starts at 1 and only grows, so it is a natural number.
\<close>

partial_function (option) copy_and_rename_while ::
  "world \<Rightarrow> path \<Rightarrow> string \<Rightarrow> string \<Rightarrow> path \<Rightarrow> nat \<Rightarrow> (string \<times> path) option"
where
  "copy_and_rename_while w destination_dir file_name new_file_name dest_file_path counter =
     (if exists w dest_file_path then
        let name_without_ext = fst (splitext file_name);
            ext = snd (splitext file_name);
            new_file_name = name_without_ext @ ''_'' @ str counter @ ext @ ''.txt'';
            dest_file_path = join destination_dir new_file_name;
            counter = counter + 1
        in copy_and_rename_while w destination_dir file_name new_file_name dest_file_path counter
      else Some (new_file_name, dest_file_path))"

declare copy_and_rename_while.simps [code]

text \<open>
  The end of the body of the \<^verbatim>\<open>for\<close> loop (lines 100 to 106): the copy, and what is
  printed and counted after it. The result is the world afterwards, the line printed, and
  whether \<^verbatim>\<open>copied_count\<close> (or else \<^verbatim>\<open>error_count\<close>) grows by one.
\<close>

definition copy_and_count ::
  "world \<Rightarrow> path \<Rightarrow> string \<Rightarrow> string \<Rightarrow> path \<Rightarrow> world \<times> event \<times> bool" where
  "copy_and_count w file_path file_name new_file_name dest_file_path =
     (case copy2 w file_path dest_file_path of
        (Inr _, w') \<Rightarrow> (w', Copied file_name new_file_name, True)
      | (Inl e, w') \<Rightarrow> (w', Copy_failed file_path e, False))"

text \<open>The body of the \<^verbatim>\<open>for\<close> loop (lines 80 to 106).\<close>

definition copy_and_rename_body :: "world \<Rightarrow> path \<Rightarrow> path \<Rightarrow> (world \<times> event \<times> bool) option" where
  "copy_and_rename_body w destination_dir file_path =
     (let file_name = basename file_path;
          new_file_name = file_name @ ''.txt'';
          dest_file_path = join destination_dir new_file_name
      in case copy_and_rename_while w destination_dir file_name new_file_name dest_file_path 1 of
           None \<Rightarrow> None
         | Some (new_file_name, dest_file_path) \<Rightarrow>
             Some (copy_and_count w file_path file_name new_file_name dest_file_path))"

text \<open>The \<^verbatim>\<open>for\<close> loop, with the two counters.\<close>

fun copy_and_rename_for ::
  "world \<Rightarrow> path \<Rightarrow> path list \<Rightarrow> nat \<Rightarrow> nat \<Rightarrow> (world \<times> nat \<times> nat \<times> event list) option"
where
  "copy_and_rename_for w destination_dir [] copied_count error_count =
     Some (w, copied_count, error_count, [])"
| "copy_and_rename_for w destination_dir (file_path # rest) copied_count error_count =
     (case copy_and_rename_body w destination_dir file_path of
        None \<Rightarrow> None
      | Some (w', ev, ok) \<Rightarrow>
          (case copy_and_rename_for w' destination_dir rest
                  (if ok then copied_count + 1 else copied_count)
                  (if ok then error_count else error_count + 1) of
             None \<Rightarrow> None
           | Some (w'', c, e, evs) \<Rightarrow> Some (w'', c, e, ev # evs)))"

text \<open>\<^verbatim>\<open>copy_and_rename_files\<close>: the world afterwards and what is printed.\<close>

definition copy_and_rename_files :: "world \<Rightarrow> path list \<Rightarrow> path \<Rightarrow> (world \<times> event list) option" where
  "copy_and_rename_files w files_list destination_dir =
     (if files_list = [] then Some (w, [Nothing_to_copy])
      else
        (case copy_and_rename_for w destination_dir files_list 0 0 of
           None \<Rightarrow> None
         | Some (w', copied_count, error_count, evs) \<Rightarrow>
             Some (w', evs @ [Summary copied_count error_count])))"

definition parse_file_formats :: "string \<Rightarrow> string list" where
  "parse_file_formats formats_str =
     (let formats = map strip (split_comma formats_str)
      in map (\<lambda>f. if f \<noteq> [] \<and> hd f = CHR ''.'' then f else CHR ''.'' # f) formats)"


section \<open>The program with a standard output that can fail\<close>












text \<open>What \<^verbatim>\<open>argparse\<close> itself prints is not recorded.\<close>



section \<open>Notions of the specification\<close>

text \<open>
  What the walk calls the files of a tree: \<open>tree_file top es d n\<close> says that, in the tree
  with entries \<open>es\<close> at path \<open>top\<close>, the directory at path \<open>d\<close> is reached from \<open>top\<close>
  through directories that can be listed, and lists an entry named \<open>n\<close> that is no
  directory, at whatever depth.
\<close>

inductive tree_file :: "path \<Rightarrow> (string \<times> node) list \<Rightarrow> path \<Rightarrow> string \<Rightarrow> bool" where
  here: "(n, t) \<in> set es \<Longrightarrow> \<not> is_dir t \<Longrightarrow> tree_file dirpath es dirpath n"
| below: "(n, Dir es') \<in> set es \<Longrightarrow> tree_file (join dirpath n) es' d f \<Longrightarrow>
          tree_file dirpath es d f"

text \<open>
  The regular files of a tree, as the specification speaks of them: \<open>regular_file top es d n\<close>
  says that the directory at path \<open>d\<close> of the tree holds a regular file named \<open>n\<close>, whether
  or not the directories on the way can be listed.
\<close>

inductive regular_file :: "path \<Rightarrow> (string \<times> node) list \<Rightarrow> path \<Rightarrow> string \<Rightarrow> bool" where
  listed: "(n, File b) \<in> set es \<Longrightarrow> regular_file dirpath es dirpath n"
| under: "(n, Dir es') \<in> set es \<Longrightarrow> regular_file (join dirpath n) es' d f \<Longrightarrow>
          regular_file dirpath es d f"
| under_closed: "(n, Closed_dir es') \<in> set es \<Longrightarrow> regular_file (join dirpath n) es' d f \<Longrightarrow>
          regular_file dirpath es d f"

text \<open>A plain tree: regular files and directories that can be listed, nothing else.\<close>

fun plain_tree :: "(string \<times> node) list \<Rightarrow> bool" where
  "plain_tree es =
     (\<forall>e \<in> set es. case snd e of File _ \<Rightarrow> True | Dir es' \<Rightarrow> plain_tree es' | _ \<Rightarrow> False)"

declare plain_tree.simps [simp del]

text \<open>A directory listing never has a separator inside a name.\<close>

fun wf_tree :: "(string \<times> node) list \<Rightarrow> bool" where
  "wf_tree es =
     (\<forall>e \<in> set es. sep \<notin> set (fst e) \<and> (case snd e of Dir es' \<Rightarrow> wf_tree es' | _ \<Rightarrow> True))"

declare wf_tree.simps [simp del]

text \<open>A directory path as the prefix of the paths below it: with the separator at its end.\<close>

definition dir_prefix :: "path \<Rightarrow> path" where
  "dir_prefix a = (if a = [] \<or> last a = sep then a else a @ [sep])"

text \<open>The numbered candidate \<^verbatim>\<open>{stem}_{counter}{original_extension}.txt\<close>.\<close>

definition numbered_name :: "string \<Rightarrow> nat \<Rightarrow> string" where
  "numbered_name file_name counter =
     fst (splitext file_name) @ ''_'' @ str counter @ snd (splitext file_name) @ ''.txt''"

text \<open>
  The name the specification gives a file in destination \<open>d\<close>: the base name with
  \<^verbatim>\<open>.txt\<close> when that is free; otherwise the numbered candidate of the least counter from
  1 on that is free.
\<close>

definition first_free_name :: "world \<Rightarrow> path \<Rightarrow> string \<Rightarrow> string \<Rightarrow> bool" where
  "first_free_name w d file_name name \<longleftrightarrow>
     (\<not> exists w (join d (file_name @ ''.txt'')) \<and> name = file_name @ ''.txt'') \<or>
     (exists w (join d (file_name @ ''.txt'')) \<and>
      (\<exists>k\<ge>1. name = numbered_name file_name k \<and>
             \<not> exists w (join d (numbered_name file_name k)) \<and>
             (\<forall>j. 1 \<le> j \<and> j < k \<longrightarrow> exists w (join d (numbered_name file_name j)))))"



section \<open>Example inputs\<close>

definition example_tree :: "(string \<times> node) list" where
  "example_tree =
     [(''a.py'', File ''A''),
      (''sub'', Dir [(''B.JS'', File ''B''), (''c.md'', File ''C''),
                    (''deep'', Dir [(''x.Py'', File ''X'')])])]"

definition example_world :: world where
  "example_world =
     \<lparr>objs = [''src'' \<mapsto> Dir example_tree,
              ''src/a.py'' \<mapsto> File ''A'',
              ''src/sub/B.JS'' \<mapsto> File ''B'',
              ''src/sub/deep/x.Py'' \<mapsto> File ''X'',
              ''d'' \<mapsto> Dir [],
              ''d/a.py.txt'' \<mapsto> File ''old''],
      faults = [''src/sub/B.JS'' \<mapsto> Refuse]\<rparr>"

text \<open>A tree with a broken link, a directory that cannot be listed and a link to a directory.\<close>

definition special_tree :: "(string \<times> node) list" where
  "special_tree =
     [(''a.py'', File ''A''),
      (''dangling.py'', Special),
      (''locked'', Closed_dir [(''b.py'', File ''B'')]),
      (''link'', Link_dir)]"

definition special_world :: world where
  "special_world =
     \<lparr>objs = [''src'' \<mapsto> Dir special_tree,
              ''src/a.py'' \<mapsto> File ''A'',
              ''src/locked'' \<mapsto> Closed_dir [(''b.py'', File ''B'')],
              ''src/locked/b.py'' \<mapsto> File ''B''],
      faults = Map.empty\<rparr>"

definition collision_world :: world where
  "collision_world =
     \<lparr>objs = [''src/a.py'' \<mapsto> File ''A'',
              ''src/b.js'' \<mapsto> File ''B'',
              ''other/a.py'' \<mapsto> File ''A2'',
              ''d'' \<mapsto> Dir [],
              ''d/a.py.txt'' \<mapsto> File ''old a'',
              ''d/b.js.txt'' \<mapsto> File ''old b''],
      faults = Map.empty\<rparr>"

definition collision_files :: "path list" where
  "collision_files = [''src/a.py'', ''src/b.js'', ''other/a.py'', ''src/missing.py'']"

text \<open>Scenario B of the specification: the destination holds \<^verbatim>\<open>a.py.txt\<close>.\<close>

definition scenario_b_world :: world where
  "scenario_b_world =
     \<lparr>objs = [''src'' \<mapsto> Dir [(''a.py'', File ''new'')],
              ''src/a.py'' \<mapsto> File ''new'',
              ''d'' \<mapsto> Dir [(''a.py.txt'', File ''old'')],
              ''d/a.py.txt'' \<mapsto> File ''old''],
      faults = Map.empty\<rparr>"









section \<open>The file locator\<close>

lemma filenames_iff: "f \<in> set (filenames es) \<longleftrightarrow> (\<exists>t. (f, t) \<in> set es \<and> \<not> is_dir t)"
proof (induction es)
  case Nil
  then show ?case by (simp add: filenames_def)
next
  case (Cons e es)
  obtain n t where e: "e = (n, t)" by (cases e)
  from Cons show ?case unfolding e by (auto simp: filenames_def)
qed

lemma walk_sound:
  "(d, ds, fs) \<in> set (walk dirpath es) \<Longrightarrow> f \<in> set fs \<Longrightarrow> tree_file dirpath es d f"
proof (induction dirpath es rule: walk.induct)
  case (1 dirpath es)
  from "1.prems"(1) consider
      (top) "d = dirpath" "fs = filenames es"
    | (sub) e es' where "e \<in> set es" "snd e = Dir es'"
        "(d, ds, fs) \<in> set (walk (join dirpath (fst e)) es')"
    by (subst (asm) walk.simps) (auto split: node.splits)
  then show ?case
  proof cases
    case top
    with "1.prems"(2) obtain t where "(f, t) \<in> set es" "\<not> is_dir t"
      by (auto simp: filenames_iff)
    then show ?thesis using top(1) by (auto intro: tree_file.here)
  next
    case sub
    from "1.IH"[OF sub(1,2,3) "1.prems"(2)]
    have "tree_file (join dirpath (fst e)) es' d f" .
    moreover from sub(1,2) have "(fst e, Dir es') \<in> set es" by (metis prod.collapse)
    ultimately show ?thesis by (rule tree_file.below[rotated])
  qed
qed

lemma walk_complete:
  "tree_file dirpath es d f \<Longrightarrow> \<exists>ds fs. (d, ds, fs) \<in> set (walk dirpath es) \<and> f \<in> set fs"
proof (induction rule: tree_file.induct)
  case (here n t es dirpath)
  then have "n \<in> set (filenames es)"
    unfolding filenames_iff by blast
  then show ?case
    by (subst walk.simps) auto
next
  case (below n es' es dirpath d f)
  then obtain ds fs where "(d, ds, fs) \<in> set (walk (join dirpath n) es')" "f \<in> set fs" by blast
  with below.hyps(1) show ?case
    by (subst walk.simps) force
qed

lemma find_set:
  assumes "objs w source_dir = Some (Dir es)"
  shows "set (fst (find_files_by_format w source_dir file_formats)) =
    {join d n |d n. tree_file source_dir es d n \<and> lower (snd (splitext n)) \<in> set file_formats}"
  (is "?L = ?R")
proof (intro set_eqI iffI)
  fix p assume "p \<in> ?L"
  with assms obtain d ds fs n where "(d, ds, fs) \<in> set (walk source_dir es)" "n \<in> set fs"
    "lower (snd (splitext n)) \<in> set file_formats" "p = join d n"
    by (auto simp: find_files_by_format_def exists_def os_walk_def Let_def)
  then show "p \<in> ?R" using walk_sound by blast
next
  fix p assume "p \<in> ?R"
  then obtain d n where dn: "tree_file source_dir es d n"
     "lower (snd (splitext n)) \<in> set file_formats" "p = join d n" by blast
  from walk_complete[OF dn(1)] obtain ds fs
    where "(d, ds, fs) \<in> set (walk source_dir es)" "n \<in> set fs"
    by blast
  with dn assms show "p \<in> ?L"
    by (force simp: find_files_by_format_def exists_def os_walk_def Let_def)
qed

lemma plain_tree_entry:
  "(n, t) \<in> set es \<Longrightarrow> plain_tree es \<Longrightarrow>
   (\<exists>b. t = File b) \<or> (\<exists>es'. t = Dir es' \<and> plain_tree es')"
proof -
  assume m: "(n, t) \<in> set es" and "plain_tree es"
  then have "\<forall>e \<in> set es. case snd e of File _ \<Rightarrow> True | Dir es' \<Rightarrow> plain_tree es' | _ \<Rightarrow> False"
    by (subst (asm) plain_tree.simps)
  with m have "case t of File _ \<Rightarrow> True | Dir es' \<Rightarrow> plain_tree es' | _ \<Rightarrow> False"
    by fastforce
  then show ?thesis by (cases t) simp_all
qed

lemma plain_tree_file:
  assumes "tree_file dirpath es d n" and "plain_tree es"
  shows "regular_file dirpath es d n"
  using assms
proof (induction rule: tree_file.induct)
  case (here n t es dirpath)
  from plain_tree_entry[OF here(1,3)] here(2) obtain b where "t = File b" by auto
  with here(1) show ?case by (auto intro: regular_file.listed)
next
  case (below n es' es dirpath d f)
  from plain_tree_entry[OF below.hyps(1) below.prems] have "plain_tree es'" by auto
  from below.IH[OF this] below.hyps(1) show ?case by (rule regular_file.under[rotated])
qed

lemma plain_regular_file:
  assumes "regular_file dirpath es d n" and "plain_tree es"
  shows "tree_file dirpath es d n"
  using assms
proof (induction rule: regular_file.induct)
  case (listed n b es dirpath)
  then show ?case by (auto intro: tree_file.here)
next
  case (under n es' es dirpath d f)
  from plain_tree_entry[OF under.hyps(1) under.prems] have "plain_tree es'" by auto
  from under.IH[OF this] under.hyps(1) show ?case by (rule tree_file.below[rotated])
next
  case (under_closed n es' es dirpath d f)
  from plain_tree_entry[OF under_closed.hyps(1) under_closed.prems] show ?case by auto
qed

text \<open>
  C1, as stated, fails: the walk's files are all the entries that are no directories, and
  a directory that cannot be listed is passed over. In the tree of \<open>special_world\<close> the
  broken link \<^verbatim>\<open>dangling.py\<close>, which is no regular file, is returned, and the regular
  file \<^verbatim>\<open>locked/b.py\<close> is not.
\<close>

theorem find_files_not_regular_counterexample:
  "objs special_world ''src'' = Some (Dir special_tree) \<and>
   fst (find_files_by_format special_world ''src'' [''.py'']) =
     [''src/a.py'', ''src/dangling.py''] \<and>
   (''dangling.py'', Special) \<in> set special_tree \<and>
   \<not> regular_file ''src'' special_tree ''src'' ''dangling.py'' \<and>
   regular_file ''src'' special_tree ''src/locked'' ''b.py'' \<and>
   lower (snd (splitext ''b.py'')) = ''.py'' \<and>
   join ''src/locked'' ''b.py'' \<notin> set (fst (find_files_by_format special_world ''src'' [''.py'']))"
proof -
  have 1: "objs special_world ''src'' = Some (Dir special_tree)"
    by (simp add: special_world_def)
  have 2: "fst (find_files_by_format special_world ''src'' [''.py'']) =
     [''src/a.py'', ''src/dangling.py'']" by code_simp
  have 3: "(''dangling.py'', Special) \<in> set special_tree" by (simp add: special_tree_def)
  have j: "join ''src'' ''locked'' = ''src/locked''" by code_simp
  have 4: "\<not> regular_file ''src'' special_tree ''src'' ''dangling.py''"
  proof
    assume "regular_file ''src'' special_tree ''src'' ''dangling.py''"
    then show False
    proof (cases rule: regular_file.cases)
      case (listed b)
      then show False by (simp add: special_tree_def)
    next
      case (under n es')
      then show False by (simp add: special_tree_def)
    next
      case (under_closed n es')
      then have "regular_file ''src/locked'' [(''b.py'', File ''B'')] ''src'' ''dangling.py''"
        using j by (auto simp: special_tree_def)
      then show False by (cases rule: regular_file.cases) auto
    qed
  qed
  have "regular_file ''src/locked'' [(''b.py'', File ''B'')] ''src/locked'' ''b.py''"
    by (rule regular_file.listed) simp
  then have 5: "regular_file ''src'' special_tree ''src/locked'' ''b.py''"
    unfolding j[symmetric] by (rule regular_file.under_closed[rotated]) (simp add: special_tree_def)
  have 6: "lower (snd (splitext ''b.py'')) = ''.py''" by code_simp
  have 7: "join ''src/locked'' ''b.py'' \<notin>
     set (fst (find_files_by_format special_world ''src'' [''.py'']))" by code_simp
  from 1 2 3 4 5 6 7 show ?thesis by blast
qed

text \<open>
  C1, amended. In a directory tree at \<^verbatim>\<open>source_dir\<close>, the paths that
  \<^verbatim>\<open>find_files_by_format\<close> returns are exactly the paths \<^verbatim>\<open>join(d, n)\<close> of the entries \<open>n\<close>
  that are no directories (regular files, but also broken links, FIFOs and sockets),
  listed by a directory \<open>d\<close> that the walk reaches through directories it can list, at
  any depth, whose lower-cased extension is among the formats given: none is missing
  and none is added. In a plain tree these are exactly the regular files of the tree.
\<close>

theorem find_files_exact:
  "objs w source_dir = Some (Dir es) \<Longrightarrow>
   set (fst (find_files_by_format w source_dir file_formats)) =
     {join d n |d n. tree_file source_dir es d n \<and>
                     lower (snd (splitext n)) \<in> set file_formats} \<and>
   (plain_tree es \<longrightarrow>
    set (fst (find_files_by_format w source_dir file_formats)) =
      {join d n |d n. regular_file source_dir es d n \<and>
                      lower (snd (splitext n)) \<in> set file_formats})"
proof -
  assume a: "objs w source_dir = Some (Dir es)"
  have "{join d n |d n. tree_file source_dir es d n \<and>
                     lower (snd (splitext n)) \<in> set file_formats} =
        {join d n |d n. regular_file source_dir es d n \<and>
                      lower (snd (splitext n)) \<in> set file_formats}" if "plain_tree es"
    using that plain_tree_file plain_regular_file by blast
  with find_set[OF a, of file_formats] show ?thesis by simp
qed

theorem find_files_exact_witness:
  "objs example_world ''src'' = Some (Dir example_tree) \<and>
   set (fst (find_files_by_format example_world ''src'' [''.py'', ''.js''])) =
     {join d n |d n. tree_file ''src'' example_tree d n \<and>
                     lower (snd (splitext n)) \<in> set [''.py'', ''.js'']} \<and>
   plain_tree example_tree \<and>
   set (fst (find_files_by_format example_world ''src'' [''.py'', ''.js''])) =
     {join d n |d n. regular_file ''src'' example_tree d n \<and>
                     lower (snd (splitext n)) \<in> set [''.py'', ''.js'']} \<and>
   fst (find_files_by_format example_world ''src'' [''.py'', ''.js'']) =
     [''src/a.py'', ''src/sub/B.JS'', ''src/sub/deep/x.Py'']"
proof -
  have h: "objs example_world ''src'' = Some (Dir example_tree)"
    by (simp add: example_world_def)
  have p: "plain_tree example_tree" by code_simp
  have "fst (find_files_by_format example_world ''src'' [''.py'', ''.js'']) =
     [''src/a.py'', ''src/sub/B.JS'', ''src/sub/deep/x.Py'']"
    by code_simp
  with h p find_files_exact[OF h, of "[''.py'', ''.js'']"] show ?thesis by blast
qed

lemma prefix_join: "sep \<notin> set n \<Longrightarrow> prefix a (join a n)"
  by (cases n) (auto simp: join_def)

lemma wf_tree_file: "(n, t) \<in> set es \<Longrightarrow> wf_tree es \<Longrightarrow> sep \<notin> set n"
  by (subst (asm) wf_tree.simps) force

lemma wf_tree_dir: "(n, Dir es') \<in> set es \<Longrightarrow> wf_tree es \<Longrightarrow> sep \<notin> set n \<and> wf_tree es'"
  by (subst (asm) wf_tree.simps) force

lemma tree_file_prefix:
  "tree_file dirpath es d n \<Longrightarrow> wf_tree es \<Longrightarrow> prefix dirpath d \<and> sep \<notin> set n"
proof (induction rule: tree_file.induct)
  case (here n t es dirpath)
  then show ?case using wf_tree_file by auto
next
  case (below n es' es dirpath d f)
  from wf_tree_dir[OF below.hyps(1) below.prems] have n: "sep \<notin> set n" and wf: "wf_tree es'"
    by auto
  from below.IH[OF wf] have "prefix (join dirpath n) d" "sep \<notin> set f" by auto
  moreover from n have "prefix dirpath (join dirpath n)" by (rule prefix_join)
  ultimately show ?case using prefix_order.order_trans by blast
qed

lemma join_dir_prefix: "sep \<notin> set n \<Longrightarrow> join a n = dir_prefix a @ n"
  by (cases n) (auto simp: join_def dir_prefix_def)

lemma dir_prefix_join: "sep \<notin> set n \<Longrightarrow> prefix (dir_prefix a) (dir_prefix (join a n))"
  unfolding join_dir_prefix by (simp add: dir_prefix_def)

lemma tree_file_dir_prefix:
  "tree_file dirpath es d n \<Longrightarrow> wf_tree es \<Longrightarrow> prefix (dir_prefix dirpath) (dir_prefix d)"
proof (induction rule: tree_file.induct)
  case (here n t es dirpath)
  then show ?case by simp
next
  case (below n es' es dirpath d f)
  from wf_tree_dir[OF below.hyps(1) below.prems] have n: "sep \<notin> set n" and wf: "wf_tree es'"
    by auto
  from below.IH[OF wf] have "prefix (dir_prefix (join dirpath n)) (dir_prefix d)" .
  moreover from n have "prefix (dir_prefix dirpath) (dir_prefix (join dirpath n))"
    by (rule dir_prefix_join)
  ultimately show ?case using prefix_order.order_trans by blast
qed

text \<open>
  C10. When no name listed in the tree has a separator inside, every path returned by
  \<^verbatim>\<open>find_files_by_format\<close> is \<^verbatim>\<open>join(d, n)\<close> for a directory \<open>d\<close> of the tree under
  \<^verbatim>\<open>source_dir\<close> and a file name \<open>n\<close> listed in \<open>d\<close>, and it begins with \<^verbatim>\<open>source_dir\<close>
  as a directory: with \<^verbatim>\<open>source_dir\<close> and the separator after it.
\<close>

theorem found_paths_under_source:
  assumes "objs w source_dir = Some (Dir es)" and "wf_tree es"
    and "p \<in> set (fst (find_files_by_format w source_dir file_formats))"
  shows "(\<exists>d n. tree_file source_dir es d n \<and> prefix source_dir d \<and> p = join d n) \<and>
         prefix source_dir p \<and> prefix (dir_prefix source_dir) p"
proof -
  from assms(3) obtain d n where dn: "tree_file source_dir es d n" "p = join d n"
    unfolding find_set[OF assms(1)] by blast
  from tree_file_prefix[OF dn(1) assms(2)] have *: "prefix source_dir d" "sep \<notin> set n" by auto
  then have "prefix source_dir p" unfolding dn(2)
    using prefix_join prefix_order.order_trans by blast
  moreover have "prefix (dir_prefix source_dir) p"
  proof -
    from tree_file_dir_prefix[OF dn(1) assms(2)]
    have "prefix (dir_prefix source_dir) (dir_prefix d)" .
    moreover have "prefix (dir_prefix d) p"
      unfolding dn(2) join_dir_prefix[OF *(2)] by simp
    ultimately show ?thesis using prefix_order.order_trans by blast
  qed
  ultimately show ?thesis using dn * by blast
qed

theorem found_paths_under_source_witness:
  "objs example_world ''src'' = Some (Dir example_tree) \<and> wf_tree example_tree \<and>
   ''src/sub/deep/x.Py'' \<in> set (fst (find_files_by_format example_world ''src'' [''.py''])) \<and>
   (\<exists>d n. tree_file ''src'' example_tree d n \<and> prefix ''src'' d \<and>
           ''src/sub/deep/x.Py'' = join d n) \<and>
   prefix ''src'' ''src/sub/deep/x.Py'' \<and>
   prefix (dir_prefix ''src'') ''src/sub/deep/x.Py'' \<and> dir_prefix ''src'' = ''src/''"
proof -
  have h1: "objs example_world ''src'' = Some (Dir example_tree)"
    by (simp add: example_world_def)
  have h2: "wf_tree example_tree" by code_simp
  have h3: "''src/sub/deep/x.Py'' \<in> set (fst (find_files_by_format example_world ''src'' [''.py'']))"
    by code_simp
  have h4: "dir_prefix ''src'' = ''src/''" by code_simp
  from found_paths_under_source[OF h1 h2 h3] h1 h2 h3 h4 show ?thesis by blast
qed

text \<open>
  C5 (the program at a failing input). A format given in upper case matches no file:
  with the formats argument \<^verbatim>\<open>PY\<close>, neither \<^verbatim>\<open>a.py\<close> nor \<^verbatim>\<open>x.Py\<close> of the example
  tree is found, while the argument \<^verbatim>\<open>py\<close> finds both. Only the extension of the
  file is lower-cased; the entries of the format list are compared as given.
\<close>

theorem upper_case_format_finds_nothing:
  "parse_file_formats ''PY'' = [''.PY''] \<and>
   fst (find_files_by_format example_world ''src'' (parse_file_formats ''PY'')) = [] \<and>
   fst (find_files_by_format example_world ''src'' (parse_file_formats ''py'')) =
     [''src/a.py'', ''src/sub/deep/x.Py'']"
  by code_simp

section \<open>The collision loop\<close>

lemma digit_inj: "a < 10 \<Longrightarrow> b < 10 \<Longrightarrow> digit a = digit b \<Longrightarrow> a = b"
proof -
  assume a: "a < 10" and b: "b < 10" and e: "digit a = digit b"
  from e have "(of_char (digit a) :: nat) = of_char (digit b)" by simp
  then have "(48 + a) mod 256 = (48 + b) mod 256" by (simp add: digit_def)
  with a b show "a = b" by simp
qed

lemma str_nonempty: "str n \<noteq> []"
  by (subst str.simps) simp

lemma str_inj: "str n = str m \<Longrightarrow> n = m"
proof (induction n arbitrary: m rule: str.induct)
  case (1 n)
  show ?case
  proof (cases "n < 10")
    case True
    then have sn: "str n = [digit n]" by (subst str.simps) simp
    show ?thesis
    proof (cases "m < 10")
      case True
      then have "str m = [digit m]" by (subst str.simps) simp
      with sn "1.prems" have "digit n = digit m" by simp
      with \<open>n < 10\<close> \<open>m < 10\<close> show ?thesis by (rule digit_inj)
    next
      case False
      then have "str m = str (m div 10) @ [digit (m mod 10)]" by (subst str.simps) simp
      with sn "1.prems" have "str (m div 10) = []" by simp
      with str_nonempty show ?thesis by blast
    qed
  next
    case False
    then have sn: "str n = str (n div 10) @ [digit (n mod 10)]" by (subst str.simps) simp
    show ?thesis
    proof (cases "m < 10")
      case True
      then have "str m = [digit m]" by (subst str.simps) simp
      with sn "1.prems" have "str (n div 10) = []" by simp
      with str_nonempty show ?thesis by blast
    next
      case m: False
      then have "str m = str (m div 10) @ [digit (m mod 10)]" by (subst str.simps) simp
      with sn "1.prems" have e: "str (n div 10) = str (m div 10)" "digit (n mod 10) = digit (m mod 10)"
        by simp_all
      from "1.IH"[OF False e(1)] have "n div 10 = m div 10" .
      moreover from e(2) have "n mod 10 = m mod 10" by (intro digit_inj) simp_all
      ultimately show ?thesis by (metis div_mult_mod_eq)
    qed
  qed
qed

lemma numbered_name_inj: "numbered_name fn i = numbered_name fn j \<Longrightarrow> i = j"
  unfolding numbered_name_def by (simp add: str_inj)

lemma while_taken:
  "exists w dest_file_path \<Longrightarrow>
   copy_and_rename_while w d fn new_file_name dest_file_path counter =
   copy_and_rename_while w d fn (numbered_name fn counter) (join d (numbered_name fn counter))
     (counter + 1)"
  by (subst copy_and_rename_while.simps) (simp add: numbered_name_def Let_def)

lemma while_free:
  "\<not> exists w dest_file_path \<Longrightarrow>
   copy_and_rename_while w d fn new_file_name dest_file_path counter =
   Some (new_file_name, dest_file_path)"
  by (subst copy_and_rename_while.simps) simp

lemma while_counts_up:
  assumes "exists w p" and "c \<le> k"
    and "\<forall>j. c \<le> j \<and> j < k \<longrightarrow> exists w (join d (numbered_name fn j))"
    and "\<not> exists w (join d (numbered_name fn k))"
  shows "copy_and_rename_while w d fn n p c =
         Some (numbered_name fn k, join d (numbered_name fn k))"
  using assms
proof (induction "k - c" arbitrary: c n p)
  case 0
  then have "c = k" by simp
  with "0.prems" show ?case by (simp add: while_taken while_free)
next
  case (Suc m)
  then have ck: "c < k" by simp
  with Suc.prems(3) have taken: "exists w (join d (numbered_name fn c))" by simp
  have "copy_and_rename_while w d fn (numbered_name fn c) (join d (numbered_name fn c)) (c + 1) =
        Some (numbered_name fn k, join d (numbered_name fn k))"
  proof (rule Suc.hyps(1))
    show "m = k - (c + 1)" using Suc.hyps(2) by simp
    show "exists w (join d (numbered_name fn c))" by (rule taken)
    show "c + 1 \<le> k" using ck by simp
    show "\<forall>j. c + 1 \<le> j \<and> j < k \<longrightarrow> exists w (join d (numbered_name fn j))"
      using Suc.prems(3) by simp
    show "\<not> exists w (join d (numbered_name fn k))" by (rule Suc.prems(4))
  qed
  with Suc.prems(1) show ?case by (simp add: while_taken)
qed

lemma finite_taken_counters:
  assumes "finite {n. exists w (join d n)}"
  shows "finite {j. exists w (join d (numbered_name fn j))}"
proof -
  have "{j. exists w (join d (numbered_name fn j))} =
        numbered_name fn -` {n. exists w (join d n)}" by auto
  moreover have "inj (numbered_name fn)" by (rule injI) (rule numbered_name_inj)
  ultimately show ?thesis using finite_vimageI[OF assms] by simp
qed

lemma first_free_counter:
  assumes "finite {n. exists w (join d n)}"
  shows "\<exists>k\<ge>c. \<not> exists w (join d (numbered_name fn k)) \<and>
              (\<forall>j. c \<le> j \<and> j < k \<longrightarrow> exists w (join d (numbered_name fn j)))"
proof -
  let ?free = "\<lambda>k. c \<le> k \<and> \<not> exists w (join d (numbered_name fn k))"
  have "\<exists>k. ?free k"
  proof (rule ccontr)
    assume "\<not> (\<exists>k. ?free k)"
    then have "{j. c \<le> j} \<subseteq> {j. exists w (join d (numbered_name fn j))}" by auto
    with finite_taken_counters[OF assms] have "finite {j. c \<le> j}" by (rule rev_finite_subset)
    moreover have "infinite {j. c \<le> j}"
      by (metis (mono_tags, lifting) finite_nat_set_iff_bounded_le mem_Collect_eq nat_le_linear not_less_eq_eq)
    ultimately show False by blast
  qed
  then have "?free (LEAST k. ?free k)" by (rule LeastI_ex)
  moreover have "\<forall>j. c \<le> j \<and> j < (LEAST k. ?free k) \<longrightarrow> exists w (join d (numbered_name fn j))"
    using not_less_Least by blast
  ultimately show ?thesis by blast
qed

lemma while_returns:
  assumes "finite {n. exists w (join d n)}"
  shows "\<exists>r. copy_and_rename_while w d fn n p c = Some r"
proof (cases "exists w p")
  case False
  then show ?thesis by (simp add: while_free)
next
  case True
  from first_free_counter[OF assms, of c fn] obtain k where "c \<le> k"
    "\<not> exists w (join d (numbered_name fn k))"
    "\<forall>j. c \<le> j \<and> j < k \<longrightarrow> exists w (join d (numbered_name fn j))" by blast
  with True show ?thesis using while_counts_up by blast
qed

lemma while_result_free:
  assumes "copy_and_rename_while w d fn n p c = Some r"
  shows "\<not> exists w (snd r)"
proof (rule copy_and_rename_while.raw_induct
    [where P = "\<lambda>w d fn n p c r. \<not> exists w (snd r)", OF _ assms])
  fix f :: "world \<Rightarrow> path \<Rightarrow> string \<Rightarrow> string \<Rightarrow> path \<Rightarrow> nat \<Rightarrow> (string \<times> path) option"
  fix w d fn n p c r
  assume IH: "\<And>w d fn n p c r. f w d fn n p c = Some r \<Longrightarrow> \<not> exists w (snd r)"
  assume step: "(if exists w p
      then let name_without_ext = fst (splitext fn);
               ext = snd (splitext fn);
               new_file_name = name_without_ext @ ''_'' @ str c @ ext @ ''.txt'';
               dest_file_path = join d new_file_name;
               counter = c + 1
           in f w d fn new_file_name dest_file_path counter
      else Some (n, p)) = Some r"
  show "\<not> exists w (snd r)"
  proof (cases "exists w p")
    case True
    with step IH show ?thesis by (simp add: Let_def)
  next
    case False
    with step show ?thesis by auto
  qed
qed

section \<open>The copy engine\<close>

lemma finite_names:
  assumes "finite (dom (objs w))"
  shows "finite {n. exists w (join d n)}"
proof -
  let ?D = "dom (objs w)"
  have "{n. exists w (join d n)} \<subseteq> ?D \<union> drop (length d) ` ?D \<union> drop (length d + 1) ` ?D"
  proof
    fix n assume "n \<in> {n. exists w (join d n)}"
    then have m: "join d n \<in> ?D" by (auto simp: exists_def)
    have "join d n = n \<or> join d n = d @ n \<or> join d n = d @ [sep] @ n"
      by (simp add: join_def)
    then have "n = join d n \<or> n = drop (length d) (join d n) \<or> n = drop (length d + 1) (join d n)"
      by auto
    with m show "n \<in> ?D \<union> drop (length d) ` ?D \<union> drop (length d + 1) ` ?D"
      by (metis UnI1 UnI2 imageI)
  qed
  moreover from assms have "finite (?D \<union> drop (length d) ` ?D \<union> drop (length d + 1) ` ?D)"
    by simp
  ultimately show ?thesis by (rule finite_subset)
qed

lemma write_file_objs:
  "objs (snd (write_file w dst b)) = objs w \<or>
   (\<exists>b'. objs (snd (write_file w dst b)) = (objs w)(dst \<mapsto> File b'))"
  unfolding write_file_def
  by (auto split: option.splits node.splits fault.splits)

lemma copy2_objs:
  "objs (snd (copy2 w src dst)) = objs w \<or>
   (\<exists>b. objs (snd (copy2 w src dst)) =
      (objs w)((case objs w dst of
                  Some t \<Rightarrow> if is_dir t then join dst (basename src) else dst
                | None \<Rightarrow> dst) \<mapsto> File b))"
proof -
  let ?dst = "case objs w dst of
                Some t \<Rightarrow> if is_dir t then join dst (basename src) else dst
              | None \<Rightarrow> dst"
  have "snd (copy2 w src dst) = w \<or> (\<exists>b. snd (copy2 w src dst) = snd (write_file w ?dst b))"
    unfolding copy2_def Let_def by (auto split: option.splits node.splits)
  with write_file_objs[of w ?dst] show ?thesis by metis
qed

lemma copy2_finite:
  "finite (dom (objs w)) \<Longrightarrow> finite (dom (objs (snd (copy2 w src dst))))"
  using copy2_objs[of w src dst] by auto

lemma copy2_frame:
  assumes "\<not> exists w dst"
  shows "objs w \<subseteq>\<^sub>m objs (snd (copy2 w src dst))"
proof -
  from assms have none: "objs w dst = None" by (simp add: exists_def)
  with copy2_objs[of w src dst]
  have "objs (snd (copy2 w src dst)) = objs w \<or>
        (\<exists>b. objs (snd (copy2 w src dst)) = (objs w)(dst \<mapsto> File b))"
    by simp
  with none show ?thesis by (auto simp: map_le_def)
qed

lemma body_cases:
  assumes "copy_and_rename_body w d file_path = Some (w', ev, ok)"
  obtains n p where
    "copy_and_rename_while w d (basename file_path) (basename file_path @ ''.txt'')
       (join d (basename file_path @ ''.txt'')) 1 = Some (n, p)"
    "w' = snd (copy2 w file_path p)"
    "(\<exists>q. fst (copy2 w file_path p) = Inr q \<and> ev = Copied (basename file_path) n \<and> ok) \<or>
     (\<exists>e. fst (copy2 w file_path p) = Inl e \<and> ev = Copy_failed file_path e \<and> \<not> ok)"
  using assms unfolding copy_and_rename_body_def copy_and_count_def Let_def
  by (auto split: option.splits prod.splits sum.splits)

lemma body_frame:
  assumes "copy_and_rename_body w d file_path = Some (w', ev, ok)"
  shows "objs w \<subseteq>\<^sub>m objs w'"
proof -
  from assms obtain n p where
    wh: "copy_and_rename_while w d (basename file_path) (basename file_path @ ''.txt'')
       (join d (basename file_path @ ''.txt'')) 1 = Some (n, p)"
    and w': "w' = snd (copy2 w file_path p)"
    by (rule body_cases)
  from while_result_free[OF wh] have "\<not> exists w p" by simp
  then show ?thesis unfolding w' by (rule copy2_frame)
qed


lemma body_finite:
  assumes "copy_and_rename_body w d file_path = Some (w', ev, ok)" and "finite (dom (objs w))"
  shows "finite (dom (objs w'))"
  using assms(1)
proof (rule body_cases)
  fix n p assume "w' = snd (copy2 w file_path p)"
  with assms(2) show ?thesis by (simp add: copy2_finite)
qed

lemma body_returns:
  assumes "finite (dom (objs w))"
  shows "\<exists>r. copy_and_rename_body w d file_path = Some r"
proof -
  from while_returns[OF finite_names[OF assms]] obtain r where
    "copy_and_rename_while w d (basename file_path) (basename file_path @ ''.txt'')
       (join d (basename file_path @ ''.txt'')) 1 = Some r" by blast
  then show ?thesis unfolding copy_and_rename_body_def Let_def
    by (cases r) (simp del: split_paired_Ex)
qed

lemma for_returns:
  "finite (dom (objs w)) \<Longrightarrow> \<exists>r. copy_and_rename_for w d fs c e = Some r"
proof (induction fs arbitrary: w c e)
  case Nil
  then show ?case by simp
next
  case (Cons f fs)
  from body_returns[OF Cons.prems] obtain w' ev ok where
    b: "copy_and_rename_body w d f = Some (w', ev, ok)" by (metis prod_cases3)
  from body_finite[OF b Cons.prems] have "finite (dom (objs w'))" .
  from Cons.IH[OF this] obtain r where
    "copy_and_rename_for w' d fs (if ok then c + 1 else c) (if ok then e else e + 1) = Some r"
    by blast
  with b show ?case by (cases r) (simp split: prod.splits)
qed

lemma for_finite:
  "copy_and_rename_for w d fs c e = Some (w', c', e', evs) \<Longrightarrow> finite (dom (objs w)) \<Longrightarrow>
   finite (dom (objs w'))"
proof (induction fs arbitrary: w c e evs)
  case Nil
  then show ?case by simp
next
  case (Cons f fs)
  from Cons.prems(1) obtain w1 ev ok evs1 where
    b: "copy_and_rename_body w d f = Some (w1, ev, ok)" and
    r: "copy_and_rename_for w1 d fs (if ok then c + 1 else c) (if ok then e else e + 1) =
          Some (w', c', e', evs1)"
    by (auto split: option.splits prod.splits)
  from body_finite[OF b Cons.prems(2)] Cons.IH[OF r] show ?case by blast
qed

lemma for_frame:
  "copy_and_rename_for w d fs c e = Some (w', c', e', evs) \<Longrightarrow> objs w \<subseteq>\<^sub>m objs w'"
proof (induction fs arbitrary: w c e evs)
  case Nil
  then show ?case by simp
next
  case (Cons f fs)
  from Cons.prems(1) obtain w1 ev ok evs1 where
    b: "copy_and_rename_body w d f = Some (w1, ev, ok)" and
    r: "copy_and_rename_for w1 d fs (if ok then c + 1 else c) (if ok then e else e + 1) =
          Some (w', c', e', evs1)"
    by (auto split: option.splits prod.splits)
  from body_frame[OF b] Cons.IH[OF r] show ?case by (rule map_le_trans)
qed


lemma for_append:
  "copy_and_rename_for w d (xs @ ys) c e =
     (case copy_and_rename_for w d xs c e of
        None \<Rightarrow> None
      | Some (w1, c1, e1, evs1) \<Rightarrow>
          (case copy_and_rename_for w1 d ys c1 e1 of
             None \<Rightarrow> None
           | Some (w2, c2, e2, evs2) \<Rightarrow> Some (w2, c2, e2, evs1 @ evs2)))"
proof (induction xs arbitrary: w c e)
  case Nil
  then show ?case by (simp split: option.splits)
next
  case (Cons x xs)
  then show ?case by (simp split: option.splits prod.splits)
qed

lemma while_first_free:
  assumes "finite {n. exists w (join d n)}"
  shows "\<exists>name. first_free_name w d fn name \<and>
     copy_and_rename_while w d fn (fn @ ''.txt'') (join d (fn @ ''.txt'')) 1 = Some (name, join d name)"
proof (cases "exists w (join d (fn @ ''.txt''))")
  case False
  then show ?thesis by (auto simp: first_free_name_def while_free)
next
  case True
  from first_free_counter[OF assms, of 1 fn] obtain k where k: "1 \<le> k"
    "\<not> exists w (join d (numbered_name fn k))"
    "\<forall>j. 1 \<le> j \<and> j < k \<longrightarrow> exists w (join d (numbered_name fn j))" by blast
  from while_counts_up[OF True k(1) k(3) k(2)]
  have "copy_and_rename_while w d fn (fn @ ''.txt'') (join d (fn @ ''.txt'')) 1 =
        Some (numbered_name fn k, join d (numbered_name fn k))" .
  moreover from True k have "first_free_name w d fn (numbered_name fn k)"
    unfolding first_free_name_def by blast
  ultimately show ?thesis by blast
qed

lemma body_first_free:
  assumes "finite {n. exists w (join d n)}"
  shows "\<exists>name. first_free_name w d (basename file_path) name \<and>
     copy_and_rename_body w d file_path =
       Some (copy_and_count w file_path (basename file_path) name (join d name))"
proof -
  from while_first_free[OF assms, of "basename file_path"] obtain name where
    n: "first_free_name w d (basename file_path) name"
     "copy_and_rename_while w d (basename file_path) (basename file_path @ ''.txt'')
        (join d (basename file_path @ ''.txt'')) 1 = Some (name, join d name)" by blast
  from n(2) have "copy_and_rename_body w d file_path =
       Some (copy_and_count w file_path (basename file_path) name (join d name))"
    unfolding copy_and_rename_body_def Let_def by simp
  with n(1) show ?thesis by blast
qed

text \<open>
  C2. In a finite file system, when the turn of the \<open>i\<close>-th file of the list comes (in the
  world \<open>wi\<close> left by the files before it), the name it is copied under is the first free
  name of the specification for that world: the base name with \<^verbatim>\<open>.txt\<close> when no such
  file is in the destination, and otherwise \<^verbatim>\<open>{stem}_{counter}{ext}.txt\<close> for the least
  counter from 1 on whose name is free. The counter is not carried from one file to the
  next: each file starts again at 1.
\<close>

theorem candidate_names:
  assumes "finite (dom (objs w))" and "i < length files_list"
  shows "\<exists>wi ci ei evsi name.
     copy_and_rename_for w d (take i files_list) 0 0 = Some (wi, ci, ei, evsi) \<and>
     first_free_name wi d (basename (files_list ! i)) name \<and>
     copy_and_rename_body wi d (files_list ! i) =
       Some (copy_and_count wi (files_list ! i) (basename (files_list ! i)) name (join d name))"
proof -
  from for_returns[OF assms(1)] obtain wi ci ei evsi where
    r: "copy_and_rename_for w d (take i files_list) 0 0 = Some (wi, ci, ei, evsi)"
    by (metis prod_cases4)
  from for_finite[OF r assms(1)] have "finite (dom (objs wi))" .
  from body_first_free[OF finite_names[OF this]] r show ?thesis by blast
qed


theorem candidate_names_witness:
  "finite (dom (objs collision_world)) \<and> 2 < length collision_files \<and>
   (\<exists>wi ci ei evsi name.
     copy_and_rename_for collision_world ''d'' (take 2 collision_files) 0 0 =
       Some (wi, ci, ei, evsi) \<and>
     first_free_name wi ''d'' (basename (collision_files ! 2)) name \<and>
     copy_and_rename_body wi ''d'' (collision_files ! 2) =
       Some (copy_and_count wi (collision_files ! 2) (basename (collision_files ! 2)) name
              (join ''d'' name))) \<and>
   map_option snd (copy_and_rename_files collision_world collision_files ''d'') =
     Some [Copied ''a.py'' ''a_1.py.txt'', Copied ''b.js'' ''b_1.js.txt'',
           Copied ''a.py'' ''a_2.py.txt'', Copy_failed ''src/missing.py'' FileNotFound,
           Summary 3 1]"
proof -
  have h1: "finite (dom (objs collision_world))" by (simp add: collision_world_def)
  have h2: "2 < length collision_files" by (simp add: collision_files_def)
  have "map_option snd (copy_and_rename_files collision_world collision_files ''d'') =
     Some [Copied ''a.py'' ''a_1.py.txt'', Copied ''b.js'' ''b_1.js.txt'',
           Copied ''a.py'' ''a_2.py.txt'', Copy_failed ''src/missing.py'' FileNotFound,
           Summary 3 1]"
    by code_simp
  with candidate_names[OF h1 h2, of "''d''"] h1 h2 show ?thesis by blast
qed

text \<open>
  C9. When finitely many names are present in the destination directory, the collision
  loop returns, from any candidate and any counter; and the numbered candidates of
  distinct counters are distinct names.
\<close>

theorem collision_loop_terminates:
  "finite {n. exists w (join d n)} \<Longrightarrow>
   (\<exists>r. copy_and_rename_while w d file_name new_file_name dest_file_path counter = Some r) \<and>
   (\<forall>i j. i \<noteq> j \<longrightarrow> numbered_name file_name i \<noteq> numbered_name file_name j)"
  using while_returns numbered_name_inj by blast

theorem collision_loop_terminates_witness:
  "finite {n. exists collision_world (join ''d'' n)} \<and>
   (\<exists>r. copy_and_rename_while collision_world ''d'' ''a.py'' ''a.py.txt'' ''d/a.py.txt'' 1 = Some r) \<and>
   numbered_name ''a.py'' 1 \<noteq> numbered_name ''a.py'' 2 \<and>
   copy_and_rename_while collision_world ''d'' ''a.py'' ''a.py.txt'' ''d/a.py.txt'' 1 =
     Some (''a_1.py.txt'', ''d/a_1.py.txt'')"
proof -
  have "finite (dom (objs collision_world))" by (simp add: collision_world_def)
  then have h: "finite {n. exists collision_world (join ''d'' n)}" by (rule finite_names)
  have "copy_and_rename_while collision_world ''d'' ''a.py'' ''a.py.txt'' ''d/a.py.txt'' 1 =
     Some (''a_1.py.txt'', ''d/a_1.py.txt'')" by code_simp
  moreover have "(1::nat) \<noteq> 2" by simp
  ultimately show ?thesis
    using h collision_loop_terminates[OF h, of "''a.py''" "''a.py.txt''" "''d/a.py.txt''" 1]
    by blast
qed

lemma files_returns:
  assumes "finite (dom (objs w))"
  shows "\<exists>w' out. copy_and_rename_files w files_list d = Some (w', out)"
proof (cases "files_list = []")
  case True
  then show ?thesis by (simp add: copy_and_rename_files_def)
next
  case False
  from for_returns[OF assms] obtain w' c e evs where
    "copy_and_rename_for w d files_list 0 0 = Some (w', c, e, evs)" by (metis prod_cases4)
  with False show ?thesis by (simp add: copy_and_rename_files_def)
qed

lemma files_for:
  assumes "copy_and_rename_files w files_list d = Some (w', out)"
  shows "\<exists>c e evs. copy_and_rename_for w d files_list 0 0 = Some (w', c, e, evs) \<and>
           (files_list \<noteq> [] \<longrightarrow> out = evs @ [Summary c e])"
proof (cases "files_list = []")
  case True
  with assms show ?thesis by (simp add: copy_and_rename_files_def)
next
  case False
  with assms show ?thesis
    by (auto simp: copy_and_rename_files_def split: option.splits)
qed

lemma for_prefix_frame:
  assumes full: "copy_and_rename_for w d files_list c e = Some (w', c', e', evs)"
    and pre: "copy_and_rename_for w d (take i files_list) c e = Some (wi, ci, ei, evsi)"
  shows "objs wi \<subseteq>\<^sub>m objs w'"
proof -
  have "copy_and_rename_for w d (take i files_list @ drop i files_list) c e = Some (w', c', e', evs)"
    using full by simp
  then obtain evs2 where "copy_and_rename_for wi d (drop i files_list) ci ei = Some (w', c', e', evs2)"
    unfolding for_append using pre by (auto split: option.splits)
  then show ?thesis by (rule for_frame)
qed

text \<open>
  C3. In a finite file system \<^verbatim>\<open>copy_and_rename_files\<close> returns, and every path that
  resolved to an object before the run resolves to the same object after it. The same
  holds from every moment of the run on: what exists when the turn of the \<open>i\<close>-th file
  comes is unchanged at the end, and that file is copied to a path that does not exist
  at that moment.
\<close>

theorem never_overwrites:
  assumes "finite (dom (objs w))"
  shows "\<exists>w' out. copy_and_rename_files w files_list d = Some (w', out) \<and>
     objs w \<subseteq>\<^sub>m objs w' \<and>
     (\<forall>i wi ci ei evsi.
        copy_and_rename_for w d (take i files_list) 0 0 = Some (wi, ci, ei, evsi) \<longrightarrow>
        objs wi \<subseteq>\<^sub>m objs w' \<and>
        (i < length files_list \<longrightarrow>
           (\<exists>name. \<not> exists wi (join d name) \<and>
              copy_and_rename_body wi d (files_list ! i) =
                Some (copy_and_count wi (files_list ! i) (basename (files_list ! i)) name
                       (join d name)))))"
proof -
  from files_returns[OF assms] obtain w' out where
    r: "copy_and_rename_files w files_list d = Some (w', out)" by blast
  from files_for[OF r] obtain c e evs where
    f: "copy_and_rename_for w d files_list 0 0 = Some (w', c, e, evs)" by blast
  have "objs w \<subseteq>\<^sub>m objs w'" using f by (rule for_frame)
  moreover have "\<forall>i wi ci ei evsi.
        copy_and_rename_for w d (take i files_list) 0 0 = Some (wi, ci, ei, evsi) \<longrightarrow>
        objs wi \<subseteq>\<^sub>m objs w' \<and>
        (i < length files_list \<longrightarrow>
           (\<exists>name. \<not> exists wi (join d name) \<and>
              copy_and_rename_body wi d (files_list ! i) =
                Some (copy_and_count wi (files_list ! i) (basename (files_list ! i)) name
                       (join d name))))"
  proof (intro allI impI conjI)
    fix i wi ci ei evsi
    assume p: "copy_and_rename_for w d (take i files_list) 0 0 = Some (wi, ci, ei, evsi)"
    show "objs wi \<subseteq>\<^sub>m objs w'" using f p by (rule for_prefix_frame)
    from for_finite[OF p assms] have "finite (dom (objs wi))" .
    from body_first_free[OF finite_names[OF this], of d "files_list ! i"] obtain name where
      n: "first_free_name wi d (basename (files_list ! i)) name"
         "copy_and_rename_body wi d (files_list ! i) =
           Some (copy_and_count wi (files_list ! i) (basename (files_list ! i)) name (join d name))"
      by blast
    from n(1) have "\<not> exists wi (join d name)" unfolding first_free_name_def by auto
    with n(2) show "\<exists>name. \<not> exists wi (join d name) \<and>
              copy_and_rename_body wi d (files_list ! i) =
                Some (copy_and_count wi (files_list ! i) (basename (files_list ! i)) name
                       (join d name))" by blast
  qed
  ultimately show ?thesis using r by blast
qed

theorem never_overwrites_witness:
  "finite (dom (objs collision_world)) \<and>
   (\<exists>w' out. copy_and_rename_files collision_world collision_files ''d'' = Some (w', out) \<and>
     objs collision_world \<subseteq>\<^sub>m objs w') \<and>
   objs (fst (the (copy_and_rename_files collision_world collision_files ''d''))) ''d/a.py.txt''
     = Some (File ''old a'') \<and>
   objs (fst (the (copy_and_rename_files collision_world collision_files ''d''))) ''d/a_1.py.txt''
     = Some (File ''A'') \<and>
   objs (fst (the (copy_and_rename_files collision_world collision_files ''d''))) ''d/a_2.py.txt''
     = Some (File ''A2'')"
proof -
  have h: "finite (dom (objs collision_world))" by (simp add: collision_world_def)
  have "objs (fst (the (copy_and_rename_files collision_world collision_files ''d''))) ''d/a.py.txt''
     = Some (File ''old a'')" by code_simp
  moreover have "objs (fst (the (copy_and_rename_files collision_world collision_files ''d''))) ''d/a_1.py.txt''
     = Some (File ''A'')" by code_simp
  moreover have "objs (fst (the (copy_and_rename_files collision_world collision_files ''d''))) ''d/a_2.py.txt''
     = Some (File ''A2'')" by code_simp
  ultimately show ?thesis
    using h never_overwrites[OF h, of collision_files "''d''"] by blast
qed




text \<open>
  C4, as stated, fails: with \<^verbatim>\<open>a.py.txt\<close> in the destination, the copy of \<^verbatim>\<open>a.py\<close> is
  named \<^verbatim>\<open>a_1.py.txt\<close>, and no file \<^verbatim>\<open>a.py_1.py.txt\<close> is made. The stem of
  \<^verbatim>\<open>a.py\<close> is \<^verbatim>\<open>a\<close>, without the extension.
\<close>

theorem scenario_b_name_counterexample:
  "exists scenario_b_world ''d/a.py.txt'' \<and>
   map_option snd (copy_and_rename_files scenario_b_world [''src/a.py''] ''d'') =
     Some [Copied ''a.py'' ''a_1.py.txt'', Summary 1 0] \<and>
   map_option snd (copy_and_rename_files scenario_b_world [''src/a.py''] ''d'') \<noteq>
     Some [Copied ''a.py'' ''a.py_1.py.txt'', Summary 1 0] \<and>
   objs (fst (the (copy_and_rename_files scenario_b_world [''src/a.py''] ''d''))) ''d/a.py_1.py.txt''
     = None \<and>
   objs (fst (the (copy_and_rename_files scenario_b_world [''src/a.py''] ''d''))) ''d/a_1.py.txt''
     = Some (File ''new'')"
  by code_simp

lemma numbered_a_py_1: "numbered_name ''a.py'' 1 = ''a_1.py.txt''"
  by code_simp

text \<open>
  C4, amended. If the destination holds \<^verbatim>\<open>a.py.txt\<close> and nothing named
  \<^verbatim>\<open>a_1.py.txt\<close>, a source file with base name \<^verbatim>\<open>a.py\<close> is copied to
  \<^verbatim>\<open>a_1.py.txt\<close> in the destination, and \<^verbatim>\<open>a.py.txt\<close> there is left as it was; when
  the source can be read and the new file written, the run prints that one file was
  copied under that name and changes nothing else.
\<close>

theorem scenario_b_name:
  assumes "basename file_path = ''a.py''"
    and "exists w (join d ''a.py.txt'')"
    and "\<not> exists w (join d ''a_1.py.txt'')"
  shows "copy_and_rename_body w d file_path =
           Some (copy_and_count w file_path ''a.py'' ''a_1.py.txt'' (join d ''a_1.py.txt'')) \<and>
         objs (fst (copy_and_count w file_path ''a.py'' ''a_1.py.txt'' (join d ''a_1.py.txt'')))
           (join d ''a.py.txt'') = objs w (join d ''a.py.txt'') \<and>
         (objs w file_path = Some (File b) \<and> faults w file_path \<noteq> Some Refuse \<and>
          faults w (join d ''a_1.py.txt'') = None \<longrightarrow>
          copy_and_rename_files w [file_path] d =
            Some (w\<lparr>objs := (objs w)(join d ''a_1.py.txt'' \<mapsto> File b)\<rparr>,
                  [Copied ''a.py'' ''a_1.py.txt'', Summary 1 0]))"
proof -
  let ?p = "join d ''a_1.py.txt''"
  have "copy_and_rename_while w d ''a.py'' ''a.py.txt'' (join d ''a.py.txt'') 1 =
        copy_and_rename_while w d ''a.py'' (numbered_name ''a.py'' 1)
          (join d (numbered_name ''a.py'' 1)) (1 + 1)"
    using assms(2) by (rule while_taken)
  also have "\<dots> = Some (''a_1.py.txt'', ?p)"
    unfolding numbered_a_py_1 using assms(3) by (rule while_free)
  finally have wh: "copy_and_rename_while w d ''a.py'' ''a.py.txt'' (join d ''a.py.txt'') 1 =
        Some (''a_1.py.txt'', ?p)" .
  then have body: "copy_and_rename_body w d file_path =
           Some (copy_and_count w file_path ''a.py'' ''a_1.py.txt'' ?p)"
    unfolding copy_and_rename_body_def Let_def using assms(1) by simp
  have "objs w \<subseteq>\<^sub>m objs (snd (copy2 w file_path ?p))"
    using assms(3) by (rule copy2_frame)
  moreover have "fst (copy_and_count w file_path ''a.py'' ''a_1.py.txt'' ?p) =
      snd (copy2 w file_path ?p)"
    unfolding copy_and_count_def by (simp split: prod.splits sum.splits)
  ultimately have keep: "objs (fst (copy_and_count w file_path ''a.py'' ''a_1.py.txt'' ?p))
           (join d ''a.py.txt'') = objs w (join d ''a.py.txt'')"
    using assms(2) by (auto simp: map_le_def exists_def dom_def)
  have "copy_and_rename_files w [file_path] d =
            Some (w\<lparr>objs := (objs w)(?p \<mapsto> File b)\<rparr>,
                  [Copied ''a.py'' ''a_1.py.txt'', Summary 1 0])"
    if ok: "objs w file_path = Some (File b)" "faults w file_path \<noteq> Some Refuse"
       "faults w ?p = None"
  proof -
    from assms(3) have none: "objs w ?p = None" by (simp add: exists_def)
    with ok have ne: "file_path \<noteq> ?p" by auto
    have "copy2 w file_path ?p = (Inr ?p, w\<lparr>objs := (objs w)(?p \<mapsto> File b)\<rparr>)"
      unfolding copy2_def write_file_def Let_def using ok none ne by (simp add: exists_def)
    then have "copy_and_count w file_path ''a.py'' ''a_1.py.txt'' ?p =
        (w\<lparr>objs := (objs w)(?p \<mapsto> File b)\<rparr>, Copied ''a.py'' ''a_1.py.txt'', True)"
      unfolding copy_and_count_def by simp
    with body show ?thesis by (simp add: copy_and_rename_files_def)
  qed
  with body keep show ?thesis by blast
qed

theorem scenario_b_name_witness:
  "basename ''src/a.py'' = ''a.py'' \<and> exists scenario_b_world (join ''d'' ''a.py.txt'') \<and>
   \<not> exists scenario_b_world (join ''d'' ''a_1.py.txt'') \<and>
   copy_and_rename_body scenario_b_world ''d'' ''src/a.py'' =
     Some (copy_and_count scenario_b_world ''src/a.py'' ''a.py'' ''a_1.py.txt''
            (join ''d'' ''a_1.py.txt'')) \<and>
   objs (fst (copy_and_count scenario_b_world ''src/a.py'' ''a.py'' ''a_1.py.txt''
               (join ''d'' ''a_1.py.txt'')))
     (join ''d'' ''a.py.txt'') = objs scenario_b_world (join ''d'' ''a.py.txt'')"
proof -
  have h1: "basename ''src/a.py'' = ''a.py''" by code_simp
  have h2: "exists scenario_b_world (join ''d'' ''a.py.txt'')" by code_simp
  have h3: "\<not> exists scenario_b_world (join ''d'' ''a_1.py.txt'')" by code_simp
  from scenario_b_name[OF h1 h2 h3] h1 h2 h3 show ?thesis by blast
qed

section \<open>The batch and the whole run\<close>






section \<open>The run with a standard output that can fail\<close>




















end
